theory Spec2Isabelle
  imports Main "HOL-Library.Sublist"
begin

section \<open>Go library functions used by the assembler\<close>

text \<open>
  A Go \<open>string\<close> is a sequence of bytes; \<^typ>\<open>string\<close> (a list of 8-bit
  \<^typ>\<open>char\<close>) models it byte for byte, and \<open>len\<close> is \<^const>\<open>length\<close>.
\<close>

subsection \<open>strings.HasPrefix\<close>

definition HasPrefix :: "string \<Rightarrow> string \<Rightarrow> bool" where
  "HasPrefix s p = prefix p s"

subsection \<open>unicode.IsSpace, strings.TrimSpace, strings.Fields\<close>

text \<open>
  \<open>unicode.IsSpace\<close> holds for U+0009..U+000D, U+0020, U+0085, U+00A0, U+1680,
  U+2000..U+200A, U+2028, U+2029, U+202F, U+205F and U+3000. The list below holds
  the UTF-8 encoding of each. No encoding starts with a continuation byte
  (\<open>0x80..0xBF\<close>) and each one, met at the head or at the tail of a string, is what
  \<open>utf8.DecodeRune\<close> and \<open>utf8.DecodeLastRune\<close> decode there; raw bytes that are
  not valid UTF-8 decode to U+FFFD, which is no space.
\<close>

definition spaceEncodings :: "string list" where
  "spaceEncodings =
    [[CHR 0x09], [CHR 0x0A], [CHR 0x0B], [CHR 0x0C], [CHR 0x0D], [CHR 0x20],
     [CHR 0xC2, CHR 0x85], [CHR 0xC2, CHR 0xA0],
     [CHR 0xE1, CHR 0x9A, CHR 0x80],
     [CHR 0xE2, CHR 0x80, CHR 0x80], [CHR 0xE2, CHR 0x80, CHR 0x81],
     [CHR 0xE2, CHR 0x80, CHR 0x82], [CHR 0xE2, CHR 0x80, CHR 0x83],
     [CHR 0xE2, CHR 0x80, CHR 0x84], [CHR 0xE2, CHR 0x80, CHR 0x85],
     [CHR 0xE2, CHR 0x80, CHR 0x86], [CHR 0xE2, CHR 0x80, CHR 0x87],
     [CHR 0xE2, CHR 0x80, CHR 0x88], [CHR 0xE2, CHR 0x80, CHR 0x89],
     [CHR 0xE2, CHR 0x80, CHR 0x8A],
     [CHR 0xE2, CHR 0x80, CHR 0xA8], [CHR 0xE2, CHR 0x80, CHR 0xA9],
     [CHR 0xE2, CHR 0x80, CHR 0xAF],
     [CHR 0xE2, CHR 0x81, CHR 0x9F],
     [CHR 0xE3, CHR 0x80, CHR 0x80]]"

text \<open>The number of bytes of the white-space rune at the head of a string, 0 when
  the string does not start with one.\<close>

definition spaceAtHead :: "string \<Rightarrow> nat" where
  "spaceAtHead s =
     (case find (\<lambda>e. prefix e s) spaceEncodings of None \<Rightarrow> 0 | Some e \<Rightarrow> length e)"

text \<open>The same at the tail of a string.\<close>

definition spaceAtTail :: "string \<Rightarrow> nat" where
  "spaceAtTail s =
     (case find (\<lambda>e. suffix e s) spaceEncodings of None \<Rightarrow> 0 | Some e \<Rightarrow> length e)"

lemma spaceAtHead_le: "spaceAtHead s \<le> length s"
  by (auto simp: spaceAtHead_def find_Some_iff prefix_length_le split: option.splits)

lemma spaceAtTail_le: "spaceAtTail s \<le> length s"
  by (auto simp: spaceAtTail_def find_Some_iff suffix_length_le split: option.splits)

lemma spaceAtHead_Nil [simp]: "spaceAtHead [] = 0"
  using spaceAtHead_le [of "[]"] by simp

lemma spaceAtTail_Nil [simp]: "spaceAtTail [] = 0"
  using spaceAtTail_le [of "[]"] by simp

function TrimLeft :: "string \<Rightarrow> string" where
  "TrimLeft s = (if spaceAtHead s = 0 then s else TrimLeft (drop (spaceAtHead s) s))"
  by pat_completeness auto
termination
proof (relation "measure length")
  show "wf (measure length)" by simp
next
  fix s :: string
  assume "spaceAtHead s \<noteq> 0"
  moreover have "spaceAtHead s \<le> length s" by (rule spaceAtHead_le)
  ultimately show "(drop (spaceAtHead s) s, s) \<in> measure length" by simp
qed

function TrimRight :: "string \<Rightarrow> string" where
  "TrimRight s =
     (if spaceAtTail s = 0 then s else TrimRight (take (length s - spaceAtTail s) s))"
  by pat_completeness auto
termination
proof (relation "measure length")
  show "wf (measure length)" by simp
next
  fix s :: string
  assume "spaceAtTail s \<noteq> 0"
  moreover have "spaceAtTail s \<le> length s" by (rule spaceAtTail_le)
  ultimately show "(take (length s - spaceAtTail s) s, s) \<in> measure length" by simp
qed

declare TrimLeft.simps [simp del] TrimRight.simps [simp del]

text \<open>\<open>strings.TrimSpace\<close>: all leading and trailing white space removed.\<close>

definition TrimSpace :: "string \<Rightarrow> string" where
  "TrimSpace s = TrimRight (TrimLeft s)"

text \<open>
  \<open>strings.Fields\<close>: the maximal runs of non-space runes, in order. The first
  argument is the field being collected (empty when none is open), the second the
  bytes still to read. A white-space rune closes the open field; any other byte
  extends it (a rune that is no space has no white-space encoding inside it, since
  its bytes after the first are continuation bytes).
\<close>

function fieldsFrom :: "string \<Rightarrow> string \<Rightarrow> string list" where
  "fieldsFrom cur [] = (if cur = [] then [] else [cur])"
| "fieldsFrom cur (c # cs) =
     (if spaceAtHead (c # cs) = 0 then fieldsFrom (cur @ [c]) cs
      else if cur = [] then fieldsFrom [] (drop (spaceAtHead (c # cs)) (c # cs))
      else cur # fieldsFrom [] (drop (spaceAtHead (c # cs)) (c # cs)))"
  by pat_completeness auto
termination
  by (relation "measure (\<lambda>(cur, s). length s)") auto

declare fieldsFrom.simps(2) [simp del]

definition Fields :: "string \<Rightarrow> string list" where
  "Fields s = fieldsFrom [] s"

subsection \<open>strings.Join with a single blank, strings.Repeat\<close>

fun Join :: "string list \<Rightarrow> string" where
  "Join [] = []"
| "Join [x] = x"
| "Join (x # y # ys) = x @ '' '' @ Join (y # ys)"

definition Repeat :: "string \<Rightarrow> nat \<Rightarrow> string" where
  "Repeat s n = concat (replicate n s)"

subsection \<open>strconv.ParseInt and strconv.Atoi\<close>

text \<open>
  For a base from 2 to 10, the digit of a byte is \<open>c - '0'\<close>, valid when below the
  base; every other byte is a syntax error.
\<close>

definition isDigit :: "nat \<Rightarrow> char \<Rightarrow> bool" where
  "isDigit base c = (48 \<le> (of_char c :: nat) \<and> (of_char c :: nat) < 48 + base)"

definition digitVal :: "char \<Rightarrow> nat" where
  "digitVal c = of_char c - 48"

definition digitsVal :: "nat \<Rightarrow> string \<Rightarrow> nat" where
  "digitsVal base ds = foldl (\<lambda>n c. n * base + digitVal c) 0 ds"

text \<open>The sign of a numeral and what follows it.\<close>

fun splitSign :: "string \<Rightarrow> bool \<times> string" where
  "splitSign [] = (False, [])"
| "splitSign (c # cs) =
     (if c = CHR ''-'' then (True, cs)
      else if c = CHR ''+'' then (False, cs)
      else (False, c # cs))"

text \<open>
  \<open>strconv.ParseInt(s, base, bitSize)\<close> for \<open>2 \<le> base \<le> 10\<close>: an optional sign,
  then at least one digit of the base and nothing else (an underscore is accepted
  only with base 0). A value outside \<open>-2^(bitSize-1) .. 2^(bitSize-1) - 1\<close> is a
  range error. The caller only tests \<open>err != nil\<close>, so both errors are \<open>None\<close>.
\<close>

definition ParseInt :: "string \<Rightarrow> nat \<Rightarrow> nat \<Rightarrow> int option" where
  "ParseInt s base bitSize =
     (case splitSign s of (neg, ds) \<Rightarrow>
        if ds = [] then None
        else if list_all (isDigit base) ds then
          (let n = (if neg then - int (digitsVal base ds) else int (digitsVal base ds))
           in if n < - (2 ^ (bitSize - 1)) \<or> 2 ^ (bitSize - 1) \<le> n then None
              else Some n)
        else None)"

text \<open>The size of Go's \<open>int\<close>, on a 64-bit platform.\<close>

definition intSize :: nat where
  "intSize = 64"

text \<open>\<open>strconv.Atoi(s)\<close> is \<open>ParseInt(s, 10, 0)\<close>, where bit size 0 is that of \<open>int\<close>.\<close>

definition Atoi :: "string \<Rightarrow> int option" where
  "Atoi s = ParseInt s 10 intSize"

subsection \<open>fmt.Sprintf with the verbs used\<close>

fun binDigits :: "nat \<Rightarrow> string" where
  "binDigits n =
     (if n < 2 then [char_of (48 + n)] else binDigits (n div 2) @ [char_of (48 + n mod 2)])"

definition hexDigit :: "nat \<Rightarrow> char" where
  "hexDigit d = (if d < 10 then char_of (48 + d) else char_of (55 + d))"

fun hexDigits :: "nat \<Rightarrow> string" where
  "hexDigits n =
     (if n < 16 then [hexDigit n] else hexDigits (n div 16) @ [hexDigit (n mod 16)])"

declare binDigits.simps [simp del] hexDigits.simps [simp del]

definition zeroPad :: "nat \<Rightarrow> string \<Rightarrow> string" where
  "zeroPad w s = replicate (w - length s) CHR ''0'' @ s"

text \<open>
  The verbs \<open>%08b\<close> and \<open>%04X\<close> on an integer: the digits of the absolute value,
  padded with zeros on the left to the width, one less when a sign takes a place.
\<close>

definition Sprintf_08b :: "int \<Rightarrow> string" where
  "Sprintf_08b n =
     (if n < 0 then CHR ''-'' # zeroPad 7 (binDigits (nat (- n)))
      else zeroPad 8 (binDigits (nat n)))"

definition Sprintf_04X :: "int \<Rightarrow> string" where
  "Sprintf_04X n =
     (if n < 0 then CHR ''-'' # zeroPad 3 (hexDigits (nat (- n)))
      else zeroPad 4 (hexDigits (nat n)))"

section \<open>The assembler\<close>

text \<open>The errors of \<open>fmt.Errorf\<close>, one constructor per message, with its argument.\<close>

datatype error =
    InvalidInstructionFormat string
  | UnknownOpcode string
  | InvalidDestination string
  | UnknownTag string
  | BinaryDataLength string
  | InvalidDecimalData string

type_synonym tags = "string \<rightharpoonup> nat"

type_synonym opcodes = "string \<rightharpoonup> string"

subsection \<open>Operands\<close>

definition processBinOrDecData :: "string \<Rightarrow> error + string" where
  "processBinOrDecData data =
     (if HasPrefix data ''0b'' then
        (let data' = drop 2 data
         in if length data' \<noteq> 8 then Inl (BinaryDataLength data') else Inr data')
      else
        (case Atoi data of
           None \<Rightarrow> Inl (InvalidDecimalData data)
         | Some decimal \<Rightarrow> Inr (Sprintf_08b decimal)))"

definition isDestination :: "string \<Rightarrow> bool" where
  "isDestination part = (part = ''R0'' \<or> part = ''R1'')"

text \<open>The pair is Go's \<open>(string, error)\<close>, with \<open>None\<close> for a \<open>nil\<close> error.\<close>

definition processDestination :: "string \<Rightarrow> string \<times> error option" where
  "processDestination dest =
     (if dest = ''R0'' then (''0'', None)
      else if dest = ''R1'' then (''1'', None)
      else ([], Some (InvalidDestination dest)))"

text \<open>
  The named results \<open>dest\<close>, \<open>data\<close> and \<open>err\<close> start empty and \<open>nil\<close>; each case of
  the \<open>switch\<close> on \<open>len(parts)\<close> assigns some of them.
\<close>

fun getDestAndData :: "string list \<Rightarrow> string \<times> string \<times> error option" where
  "getDestAndData [p0] = ([], [], None)"
| "getDestAndData [p0, p1] =
     (if isDestination p1
      then (case processDestination p1 of (dest, err) \<Rightarrow> (dest, [], err))
      else ([], p1, None))"
| "getDestAndData [p0, p1, p2] =
     (case processDestination p1 of (dest, err) \<Rightarrow> (dest, p2, err))"
| "getDestAndData parts = ([], [], Some (InvalidInstructionFormat (Join parts)))"

definition processTag :: "string \<Rightarrow> tags \<Rightarrow> error + string" where
  "processTag data tags =
     (let name = drop 1 data
      in case tags name of
           None \<Rightarrow> Inl (UnknownTag name)
         | Some address \<Rightarrow> Inr (Sprintf_08b (int address)))"

definition processData :: "string \<Rightarrow> tags \<Rightarrow> error + string" where
  "processData data tags =
     (if HasPrefix data ''#'' then processTag data tags else processBinOrDecData data)"

subsection \<open>One instruction\<close>

text \<open>
  What the assembler prints, one event per \<open>Printf\<close>, holding its arguments:
  the heading and the rule of dashes, the line of a translated instruction (its
  address, its text, and the opcode, destination and data fields), and the report
  of an instruction that failed (the error and the text).
\<close>

datatype event =
    Heading
  | Dashes
  | Assembled nat string string string string
  | Failed error string

text \<open>
  The opcode table \<open>cfg.Opcodes\<close> is read from a configuration file and is a
  parameter here. The result is the returned pair, with what the call printed.
\<close>

definition assembleInstruction ::
  "opcodes \<Rightarrow> string \<Rightarrow> tags \<Rightarrow> nat \<Rightarrow> (error + string) \<times> event list" where
  "assembleInstruction ops instruction tags line =
     (case Fields instruction of
        [] \<Rightarrow> (Inl (InvalidInstructionFormat instruction), [])
      | p0 # ps \<Rightarrow>
          (case ops p0 of
             None \<Rightarrow> (Inl (UnknownOpcode p0), [])
           | Some opcode \<Rightarrow>
               (case getDestAndData (p0 # ps) of
                  (dest, data, Some err) \<Rightarrow> (Inl err, [])
                | (dest, data, None) \<Rightarrow>
                    (let dest' = (if dest = [] then ''0'' else dest)
                     in if data = [] then
                          (Inr (opcode @ dest' @ Repeat ''0'' 8),
                           [Assembled line instruction opcode dest' (Repeat ''0'' 8)])
                        else
                          (case processData data tags of
                             Inl err \<Rightarrow> (Inl err, [])
                           | Inr data' \<Rightarrow>
                               (Inr (opcode @ dest' @ data'),
                                [Assembled line instruction opcode dest' data']))))))"

subsection \<open>First pass\<close>

definition isComment :: "string \<Rightarrow> bool" where
  "isComment line = HasPrefix line ''//''"

definition isTag :: "string \<Rightarrow> bool" where
  "isTag line = HasPrefix line ''#''"

text \<open>
  The reader as the \<open>bufio.Scanner\<close> presents it: the lines \<open>scanner.Text()\<close>
  returns, in order, and whether \<open>scanner.Err()\<close> is an error at the end (a read
  error, or a line longer than the scanner's buffer).
\<close>

record reader =
  scanned :: "string list"
  scanErr :: bool

datatype panic = ScanPanic | ParseIntPanic string

text \<open>The loop of \<open>parse\<close> over the scanned lines, on \<open>(instructions, tags, lineNum)\<close>.\<close>

fun parseLoop ::
  "string list \<Rightarrow> string list \<times> tags \<times> nat \<Rightarrow> string list \<times> tags \<times> nat" where
  "parseLoop [] st = st"
| "parseLoop (text # rest) (instructions, tags, lineNum) =
     (let line = TrimSpace text
      in if line = [] \<or> isComment line then parseLoop rest (instructions, tags, lineNum)
         else if isTag line
         then parseLoop rest (instructions, tags(drop 1 line \<mapsto> lineNum), lineNum)
         else parseLoop rest (instructions @ [line], tags, lineNum + 1))"

definition parse :: "reader \<Rightarrow> panic + (string list \<times> tags)" where
  "parse r =
     (case parseLoop (scanned r) ([], Map.empty, 0) of
        (instructions, tags, lineNum) \<Rightarrow>
          if scanErr r then Inl ScanPanic else Inr (instructions, tags))"

subsection \<open>Second pass\<close>

text \<open>The global \<open>hadError\<close> and the standard output.\<close>

record world =
  hadError :: bool
  stdout :: "event list"

definition emit :: "event list \<Rightarrow> world \<Rightarrow> world" where
  "emit es w = w\<lparr>stdout := stdout w @ es\<rparr>"

text \<open>The loop of \<open>assembleProgram\<close>, from index \<open>line\<close> on.\<close>

fun assembleLoop ::
  "opcodes \<Rightarrow> tags \<Rightarrow> nat \<Rightarrow> string list \<Rightarrow> string list \<times> world \<Rightarrow> string list \<times> world"
where
  "assembleLoop ops tags line [] st = st"
| "assembleLoop ops tags line (instr # rest) (assembled, w) =
     (case assembleInstruction ops instr tags line of
        (Inl err, out) \<Rightarrow>
          assembleLoop ops tags (line + 1) rest
            (assembled, (emit (out @ [Failed err instr]) w)\<lparr>hadError := True\<rparr>)
      | (Inr program, out) \<Rightarrow>
          assembleLoop ops tags (line + 1) rest (assembled @ [program], emit out w))"

definition assembleProgram ::
  "opcodes \<Rightarrow> string list \<Rightarrow> tags \<Rightarrow> world \<Rightarrow> string list \<times> world" where
  "assembleProgram ops instructions tags w =
     (case assembleLoop ops tags 0 instructions ([], emit [Heading, Dashes] w) of
        (assembled, w') \<Rightarrow> (assembled, emit [Dashes] w'))"

subsection \<open>Hex image\<close>

definition rowEnd :: string where
  "rowEnd = [CHR '';'', CHR 0x0A]"

text \<open>The first loop of \<open>convertToHexAndFormat\<close>, on the string builder.\<close>

fun hexLoop :: "string list \<Rightarrow> string \<Rightarrow> panic + string" where
  "hexLoop [] hex = Inr hex"
| "hexLoop (instr # rest) hex =
     (case ParseInt instr 2 64 of
        None \<Rightarrow> Inl (ParseIntPanic instr)
      | Some binary \<Rightarrow> hexLoop rest (hex @ Sprintf_04X binary @ rowEnd))"

text \<open>The second loop, \<open>for i := len(program); i < 64; i++\<close>.\<close>

function padLoop :: "nat \<Rightarrow> string \<Rightarrow> string" where
  "padLoop i hex = (if i < 64 then padLoop (i + 1) (hex @ ''0000'' @ rowEnd) else hex)"
  by pat_completeness auto
termination
  by (relation "measure (\<lambda>(i, hex). 64 - i)") auto

declare padLoop.simps [simp del]

definition convertToHexAndFormat :: "string list \<Rightarrow> panic + string" where
  "convertToHexAndFormat program =
     (case hexLoop program [] of
        Inl p \<Rightarrow> Inl p
      | Inr hex \<Rightarrow> Inr (padLoop (length program) hex))"

subsection \<open>The run\<close>

text \<open>
  The part of \<open>main\<close> from \<open>parse\<close> to the hex image: \<open>None\<close> is the return without
  an image when \<open>hadError\<close> is set. The run starts with \<open>hadError\<close> false and nothing
  printed.
\<close>

definition mainRun :: "opcodes \<Rightarrow> reader \<Rightarrow> panic + (string option \<times> world)" where
  "mainRun ops r =
     (case parse r of
        Inl p \<Rightarrow> Inl p
      | Inr (instructions, tags) \<Rightarrow>
          (case assembleProgram ops instructions tags \<lparr>hadError = False, stdout = []\<rparr> of
             (program, w) \<Rightarrow>
               if hadError w then Inr (None, w)
               else (case convertToHexAndFormat program of
                       Inl p \<Rightarrow> Inl p
                     | Inr hex \<Rightarrow> Inr (Some hex, w))))"

text \<open>An opcode table and a source text to run examples with.\<close>

definition sampleOps :: opcodes where
  "sampleOps = [''LOD'' \<mapsto> ''000001'', ''SUB'' \<mapsto> ''000010'',
                ''BRZ'' \<mapsto> ''000011'', ''BRN'' \<mapsto> ''000100'']"

definition sampleSource :: "string list" where
  "sampleSource =
     [''// Load 10 into R0'', ''LOD R0 10'', [], ''#loop'', ''  SUB R0 1'',
      ''BRZ R0 #end'', ''BRN #loop'', [], ''#end'', ''BRN #end'']"

text \<open>Two more source texts: a tag defined twice and used before its definitions,
  with a last tag after the last instruction; and lines that fail.\<close>

definition twiceSource :: "string list" where
  "twiceSource = [''BRN #end'', ''#end'', ''LOD 1'', ''#end'', ''BRN #end'', ''#last'']"

definition failingSource :: "string list" where
  "failingSource = [''LOD R0 10'', ''FOO'', ''BRN #x'', ''SUB R1 1'']"

section \<open>Notions of the specification\<close>

text \<open>
  A numeric token: an optional sign and then decimal digits, at least one. Its
  value, and the range of a 64-bit \<open>int\<close>.
\<close>

definition isNumeric :: "string \<Rightarrow> bool" where
  "isNumeric s =
     (case s of
        [] \<Rightarrow> False
      | c # cs \<Rightarrow>
          if c = CHR ''-'' \<or> c = CHR ''+'' then cs \<noteq> [] \<and> list_all (isDigit 10) cs
          else list_all (isDigit 10) (c # cs))"

definition numericValue :: "string \<Rightarrow> int" where
  "numericValue s =
     (case s of
        [] \<Rightarrow> 0
      | c # cs \<Rightarrow>
          if c = CHR ''-'' then - int (digitsVal 10 cs)
          else if c = CHR ''+'' then int (digitsVal 10 cs)
          else int (digitsVal 10 (c # cs)))"

definition inIntRange :: "int \<Rightarrow> bool" where
  "inIntRange n = (- (2 ^ 63) \<le> n \<and> n < 2 ^ 63)"

text \<open>The decimal token of a value, without sign or leading zeros.\<close>

fun decDigits :: "nat \<Rightarrow> string" where
  "decDigits n =
     (if n < 10 then [char_of (48 + n)] else decDigits (n div 10) @ [char_of (48 + n mod 10)])"

declare decDigits.simps [simp del]

text \<open>
  The classes of a stripped line that \<open>parse\<close> tells apart: an instruction line is
  not blank, not a comment and not a tag definition; a tag definition gives the
  name after its first byte. The stripped lines of a source, and the number of
  instruction lines before line \<open>k\<close>, which is the running counter there.
\<close>

definition isInstructionLine :: "string \<Rightarrow> bool" where
  "isInstructionLine line = (line \<noteq> [] \<and> \<not> isComment line \<and> \<not> isTag line)"

definition definesTag :: "string \<Rightarrow> string \<Rightarrow> bool" where
  "definesTag name line = (line \<noteq> [] \<and> \<not> isComment line \<and> isTag line \<and> drop 1 line = name)"

definition stripped :: "reader \<Rightarrow> string list" where
  "stripped r = map TrimSpace (scanned r)"

definition instrsBefore :: "reader \<Rightarrow> nat \<Rightarrow> nat" where
  "instrsBefore r k = length (filter isInstructionLine (take k (stripped r)))"

text \<open>
  The result of encoding an instruction line, which does not depend on its
  address; whether it succeeds; the encodings of the lines that succeed and the
  reports of the lines that fail, in order.
\<close>

definition encode :: "opcodes \<Rightarrow> tags \<Rightarrow> string \<Rightarrow> error + string" where
  "encode ops tags instr = fst (assembleInstruction ops instr tags 0)"

definition encodes :: "opcodes \<Rightarrow> tags \<Rightarrow> string \<Rightarrow> bool" where
  "encodes ops tags instr = (case encode ops tags instr of Inl err \<Rightarrow> False | Inr p \<Rightarrow> True)"

definition successes :: "opcodes \<Rightarrow> tags \<Rightarrow> string list \<Rightarrow> string list" where
  "successes ops tags instructions =
     concat (map (\<lambda>instr. case encode ops tags instr of Inl err \<Rightarrow> [] | Inr p \<Rightarrow> [p])
       instructions)"

definition reports :: "opcodes \<Rightarrow> tags \<Rightarrow> string list \<Rightarrow> event list" where
  "reports ops tags instructions =
     concat (map (\<lambda>instr. case encode ops tags instr of Inl err \<Rightarrow> [Failed err instr] | Inr p \<Rightarrow> [])
       instructions)"

text \<open>The failure reports among the printed events, and the address and text of
  each translated instruction among them.\<close>

fun isFailed :: "event \<Rightarrow> bool" where
  "isFailed (Failed err instr) = True"
| "isFailed e = False"

fun placed :: "event \<Rightarrow> (nat \<times> string) list" where
  "placed (Assembled line instr opcode dest data) = [(line, instr)]"
| "placed e = []"

definition placements :: "event list \<Rightarrow> (nat \<times> string) list" where
  "placements es = concat (map placed es)"







section \<open>Numerals\<close>

lemma Atoi_numeric:
  "Atoi s = (if isNumeric s \<and> inIntRange (numericValue s) then Some (numericValue s) else None)"
proof (cases s)
  case Nil
  then show ?thesis by (simp add: Atoi_def ParseInt_def isNumeric_def)
next
  case (Cons c cs)
  then show ?thesis
    by (auto simp: Atoi_def ParseInt_def isNumeric_def numericValue_def inIntRange_def
        intSize_def Let_def)
qed

lemma numeric_no_0b: "isNumeric s \<Longrightarrow> \<not> HasPrefix s ''0b''"
proof
  assume n: "isNumeric s" and "HasPrefix s ''0b''"
  then obtain r where "s = CHR ''0'' # CHR ''b'' # r"
    by (auto simp: HasPrefix_def prefix_def)
  with n show False
    by (simp add: isNumeric_def isDigit_def)
qed

lemma numeric_no_hash: "isNumeric s \<Longrightarrow> \<not> HasPrefix s ''#''"
  by (auto simp: isNumeric_def HasPrefix_def isDigit_def split: list.splits if_splits)

lemma processBinOrDecData_decimal:
  "\<not> HasPrefix data ''0b'' \<Longrightarrow>
   processBinOrDecData data =
     (if isNumeric data \<and> inIntRange (numericValue data)
      then Inr (Sprintf_08b (numericValue data)) else Inl (InvalidDecimalData data))"
  by (simp add: processBinOrDecData_def Atoi_numeric)

lemma digitsVal_Nil [simp]: "digitsVal b [] = 0"
  by (simp add: digitsVal_def)

lemma digitsVal_snoc [simp]: "digitsVal b (ds @ [c]) = digitsVal b ds * b + digitVal c"
  by (simp add: digitsVal_def)

lemma digitVal_char_of: "d < 10 \<Longrightarrow> digitVal (char_of (48 + d)) = d"
  by (simp add: digitVal_def)

lemma isDigit_char_of: "d < b \<Longrightarrow> b \<le> 10 \<Longrightarrow> isDigit b (char_of (48 + d))"
  by (simp add: isDigit_def)

lemma binDigits_val: "digitsVal 2 (binDigits n) = n"
proof (induction n rule: binDigits.induct)
  case (1 n)
  show ?case
  proof (cases "n < 2")
    case True
    then show ?thesis
      by (subst binDigits.simps) (simp add: digitsVal_def digitVal_char_of)
  next
    case False
    with 1 show ?thesis
      by (subst binDigits.simps) (simp add: digitVal_char_of)
  qed
qed

lemma binDigits_digits: "list_all (isDigit 2) (binDigits n)"
proof (induction n rule: binDigits.induct)
  case (1 n)
  show ?case
  proof (cases "n < 2")
    case True
    then show ?thesis
      by (subst binDigits.simps) (simp add: isDigit_char_of)
  next
    case False
    with 1 show ?thesis
      by (subst binDigits.simps) (simp add: isDigit_char_of)
  qed
qed

lemma binDigits_nonempty: "binDigits n \<noteq> []"
  by (subst binDigits.simps) simp

lemma binDigits_bound: "n < 2 ^ length (binDigits n)"
proof (induction n rule: binDigits.induct)
  case (1 n)
  show ?case
  proof (cases "n < 2")
    case True
    then show ?thesis
      by (subst binDigits.simps) simp
  next
    case False
    then have "n div 2 < 2 ^ length (binDigits (n div 2))" using 1 by simp
    then have "n < 2 * 2 ^ length (binDigits (n div 2))" by linarith
    with False show ?thesis
      by (subst binDigits.simps) simp
  qed
qed

lemma binDigits_length: "n < 2 ^ k \<Longrightarrow> 0 < k \<Longrightarrow> length (binDigits n) \<le> k"
proof (induction n arbitrary: k rule: binDigits.induct)
  case (1 n)
  show ?case
  proof (cases "n < 2")
    case True
    with 1(3) show ?thesis
      by (subst binDigits.simps) simp
  next
    case False
    then obtain j where k: "k = Suc j" using 1(3) by (cases k) auto
    with False 1(2) have j: "0 < j" by (cases j) auto
    from 1(2) k have "n div 2 < 2 ^ j" by auto
    with 1(1) False j have "length (binDigits (n div 2)) \<le> j" by simp
    with False k show ?thesis
      by (subst binDigits.simps) simp
  qed
qed

lemma decDigits_val: "digitsVal 10 (decDigits n) = n"
proof (induction n rule: decDigits.induct)
  case (1 n)
  show ?case
  proof (cases "n < 10")
    case True
    then show ?thesis
      by (subst decDigits.simps) (simp add: digitsVal_def digitVal_char_of)
  next
    case False
    with 1 show ?thesis
      by (subst decDigits.simps) (simp add: digitVal_char_of)
  qed
qed

lemma decDigits_digits: "list_all (isDigit 10) (decDigits n)"
proof (induction n rule: decDigits.induct)
  case (1 n)
  show ?case
  proof (cases "n < 10")
    case True
    then show ?thesis
      by (subst decDigits.simps) (simp add: isDigit_char_of)
  next
    case False
    with 1 show ?thesis
      by (subst decDigits.simps) (simp add: isDigit_char_of)
  qed
qed

lemma decDigits_nonempty: "decDigits n \<noteq> []"
  by (subst decDigits.simps) simp

lemma digits_numeric:
  assumes "ds \<noteq> []" and "list_all (isDigit 10) ds"
  shows "isNumeric ds \<and> numericValue ds = int (digitsVal 10 ds)"
proof -
  from assms obtain c cs where ds: "ds = c # cs" and c: "isDigit 10 c"
    by (cases ds) auto
  from c have "c \<noteq> CHR ''-''" and "c \<noteq> CHR ''+''"
    by (auto simp: isDigit_def)
  with ds assms show ?thesis
    by (simp add: isNumeric_def numericValue_def)
qed

lemma decDigits_numeric: "isNumeric (decDigits n) \<and> numericValue (decDigits n) = int n"
  using digits_numeric [OF decDigits_nonempty decDigits_digits] by (simp add: decDigits_val)

lemma length_zeroPad: "length (zeroPad w s) = max w (length s)"
  by (simp add: zeroPad_def)

lemma zeroPad_digits: "list_all (isDigit 2) s \<Longrightarrow> list_all (isDigit 2) (zeroPad w s)"
  by (auto simp: zeroPad_def isDigit_def list_all_iff)

lemma digitsVal_zeros: "digitsVal b (replicate k CHR ''0'' @ s) = digitsVal b s"
proof -
  have "foldl (\<lambda>n c. n * b + digitVal c) 0 (replicate k CHR ''0'') = 0"
  proof (induction k)
    case 0
    show ?case by simp
  next
    case (Suc k)
    have "replicate (Suc k) CHR ''0'' = replicate k CHR ''0'' @ [CHR ''0'']"
      by (simp add: replicate_append_same)
    with Suc show ?case
      by (simp only: foldl_append foldl.simps) (simp add: digitVal_def)
  qed
  then show ?thesis by (simp add: digitsVal_def)
qed

lemma digitsVal_zeroPad: "digitsVal b (zeroPad w s) = digitsVal b s"
  by (simp add: zeroPad_def digitsVal_zeros)

lemma processBinOrDecData_binary:
  "processBinOrDecData (''0b'' @ bits) =
     (if length bits = 8 then Inr bits else Inl (BinaryDataLength bits))"
  by (simp add: processBinOrDecData_def HasPrefix_def)

lemma byte_field:
  assumes "v \<le> 255"
  shows "length (zeroPad 8 (binDigits v)) = 8"
proof -
  from assms have "v < 2 ^ 8" by simp
  then have "length (binDigits v) \<le> 8" by (rule binDigits_length) simp
  then show ?thesis by (simp add: length_zeroPad)
qed

lemma digit_chars:
  "char_of (48::nat) = CHR ''0''" "char_of (49::nat) = CHR ''1''" "char_of (50::nat) = CHR ''2''"
  "char_of (51::nat) = CHR ''3''" "char_of (52::nat) = CHR ''4''" "char_of (53::nat) = CHR ''5''"
  "char_of (54::nat) = CHR ''6''" "char_of (55::nat) = CHR ''7''" "char_of (56::nat) = CHR ''8''"
  "char_of (57::nat) = CHR ''9''" "char_of (65::nat) = CHR ''A''" "char_of (66::nat) = CHR ''B''"
  "char_of (67::nat) = CHR ''C''" "char_of (68::nat) = CHR ''D''" "char_of (69::nat) = CHR ''E''"
  "char_of (70::nat) = CHR ''F''"
  by code_simp+

lemma replicate_numeral: "replicate (numeral k) x = x # replicate (pred_numeral k) x"
  by (simp add: numeral_eq_Suc)

lemmas eval_digits =
  Sprintf_08b_def Sprintf_04X_def zeroPad_def binDigits.simps hexDigits.simps hexDigit_def
  digit_chars replicate_numeral

lemma processData_plain:
  "\<not> HasPrefix data ''#'' \<Longrightarrow> processData data tags = processBinOrDecData data"
  by (simp add: processData_def)

lemma Sprintf_08b_nonneg:
  assumes "0 \<le> n"
  shows "list_all (isDigit 2) (Sprintf_08b n)"
    and "int (digitsVal 2 (Sprintf_08b n)) = n"
    and "length (Sprintf_08b n) = max 8 (length (binDigits (nat n)))"
  using assms
  by (simp_all add: Sprintf_08b_def zeroPad_digits binDigits_digits digitsVal_zeroPad
      binDigits_val length_zeroPad)

lemma Sprintf_08b_wide:
  assumes "0 \<le> n"
  shows "255 < n \<longleftrightarrow> 8 < length (Sprintf_08b n)"
proof
  assume "255 < n"
  then have "256 \<le> nat n" by simp
  also have "nat n < 2 ^ length (binDigits (nat n))" by (rule binDigits_bound)
  finally have "(2::nat) ^ 8 < 2 ^ length (binDigits (nat n))" by simp
  then have "8 < length (binDigits (nat n))"
    by (simp only: power_strict_increasing_iff rel_simps)
  with assms show "8 < length (Sprintf_08b n)"
    by (simp add: Sprintf_08b_nonneg(3))
next
  assume w: "8 < length (Sprintf_08b n)"
  show "255 < n"
  proof (rule ccontr)
    assume "\<not> 255 < n"
    with assms have "nat n < 2 ^ 8" by simp
    then have "length (binDigits (nat n)) \<le> 8" by (rule binDigits_length) simp
    with assms w show False by (simp add: Sprintf_08b_nonneg(3))
  qed
qed

section \<open>White space and fields\<close>

lemma spaceEncodings_nonempty: "e \<in> set spaceEncodings \<Longrightarrow> e \<noteq> []"
  by (auto simp: spaceEncodings_def)

lemma spaceAtHead_0_iff: "spaceAtHead s = 0 \<longleftrightarrow> (\<forall>e \<in> set spaceEncodings. \<not> prefix e s)"
  by (auto simp: spaceAtHead_def find_None_iff find_Some_iff spaceEncodings_nonempty
      split: option.splits)

lemma spaceAtTail_0_iff: "spaceAtTail s = 0 \<longleftrightarrow> (\<forall>e \<in> set spaceEncodings. \<not> suffix e s)"
  by (auto simp: spaceAtTail_def find_None_iff find_Some_iff spaceEncodings_nonempty
      split: option.splits)

lemma spaceAtHead_take: "spaceAtHead s = 0 \<Longrightarrow> spaceAtHead (take k s) = 0"
  unfolding spaceAtHead_0_iff
  by (meson prefix_order.trans take_is_prefix)

lemma spaceAtHead_TrimLeft: "spaceAtHead (TrimLeft s) = 0"
  by (induction s rule: TrimLeft.induct) (subst TrimLeft.simps, simp)

lemma spaceAtTail_TrimRight: "spaceAtTail (TrimRight s) = 0"
  by (induction s rule: TrimRight.induct) (subst TrimRight.simps, simp)

lemma spaceAtHead_TrimRight: "spaceAtHead s = 0 \<Longrightarrow> spaceAtHead (TrimRight s) = 0"
proof (induction s rule: TrimRight.induct)
  case (1 s)
  then show ?case
    by (subst TrimRight.simps) (simp add: spaceAtHead_take)
qed

lemma TrimSpace_ends: "spaceAtHead (TrimSpace s) = 0 \<and> spaceAtTail (TrimSpace s) = 0"
  by (simp add: TrimSpace_def spaceAtHead_TrimRight spaceAtHead_TrimLeft spaceAtTail_TrimRight)

lemma TrimSpace_idem: "TrimSpace (TrimSpace s) = TrimSpace s"
proof -
  have "TrimLeft (TrimSpace s) = TrimSpace s"
    by (subst TrimLeft.simps) (simp add: TrimSpace_ends)
  moreover have "TrimRight (TrimSpace s) = TrimSpace s"
    by (subst TrimRight.simps) (simp add: TrimSpace_ends)
  ultimately show ?thesis
    by (simp add: TrimSpace_def [of "TrimSpace s"])
qed

lemma fieldsFrom_open: "cur \<noteq> [] \<Longrightarrow> fieldsFrom cur s \<noteq> []"
proof (induction cur s rule: fieldsFrom.induct)
  case (1 cur)
  then show ?case by simp
next
  case (2 cur c cs)
  then show ?case
    by (subst fieldsFrom.simps) simp
qed

lemma Fields_nonempty:
  assumes "s \<noteq> []" and "spaceAtHead s = 0"
  shows "Fields s \<noteq> []"
proof -
  from assms(1) obtain c cs where s: "s = c # cs" by (cases s) auto
  with assms(2) have "Fields s = fieldsFrom [c] cs"
    by (simp add: Fields_def fieldsFrom.simps(2))
  then show ?thesis by (simp add: fieldsFrom_open)
qed

lemma Fields_TrimSpace: "TrimSpace s \<noteq> [] \<Longrightarrow> Fields (TrimSpace s) \<noteq> []"
  by (simp add: Fields_nonempty TrimSpace_ends)

lemma fieldsFrom_tokens: "[] \<notin> set (fieldsFrom cur s)"
proof (induction cur s rule: fieldsFrom.induct)
  case (1 cur)
  then show ?case by simp
next
  case (2 cur c cs)
  then show ?case
    by (subst fieldsFrom.simps) simp
qed

lemma Fields_tokens: "t \<in> set (Fields s) \<Longrightarrow> t \<noteq> []"
  using fieldsFrom_tokens [of "[]" s] by (auto simp: Fields_def)

lemma Repeat_zero8: "Repeat ''0'' 8 = ''00000000''"
  by code_simp

section \<open>The first pass\<close>

lemma parseLoop_append: "parseLoop (xs @ ys) st = parseLoop ys (parseLoop xs st)"
proof (induction xs arbitrary: st)
  case Nil
  show ?case by simp
next
  case (Cons x xs)
  obtain ins tg n where st: "st = (ins, tg, n)" by (cases st) auto
  show ?case unfolding st by (simp add: Cons Let_def)
qed

lemma parseLoop_instructions:
  "fst (parseLoop ls (ins, tg, n)) = ins @ filter isInstructionLine (map TrimSpace ls)"
  by (induction ls arbitrary: ins tg n) (auto simp: Let_def isInstructionLine_def)

lemma parseLoop_counter:
  "snd (snd (parseLoop ls (ins, tg, n))) = n + length (filter isInstructionLine (map TrimSpace ls))"
  by (induction ls arbitrary: ins tg n) (auto simp: Let_def isInstructionLine_def)

lemma parseLoop_tags_keep:
  "\<forall>l \<in> set ls. \<not> definesTag name (TrimSpace l) \<Longrightarrow>
   fst (snd (parseLoop ls (ins, tg, n))) name = tg name"
  by (induction ls arbitrary: ins tg n) (auto simp: Let_def definesTag_def)

lemma parseLoop_tags_bind:
  assumes "definesTag name (TrimSpace l)"
    and "\<forall>l' \<in> set post. \<not> definesTag name (TrimSpace l')"
  shows "fst (snd (parseLoop (pre @ l # post) (ins, tg, n))) name =
         Some (n + length (filter isInstructionLine (map TrimSpace pre)))"
proof -
  obtain ins' tg' n' where pre: "parseLoop pre (ins, tg, n) = (ins', tg', n')"
    by (cases "parseLoop pre (ins, tg, n)") auto
  then have n': "n' = n + length (filter isInstructionLine (map TrimSpace pre))"
    using parseLoop_counter [of pre ins tg n] by simp
  have "parseLoop (pre @ l # post) (ins, tg, n) = parseLoop post (ins', tg'(name \<mapsto> n'), n')"
    using assms(1) pre by (simp add: parseLoop_append definesTag_def Let_def)
  then show ?thesis
    using parseLoop_tags_keep [OF assms(2)] n' by simp
qed

lemma filter_first:
  assumes "m < length xs" and "P (xs ! m)" and "\<forall>i<m. \<not> P (xs ! i)"
  shows "filter P xs = xs ! m # filter P (drop (Suc m) xs)"
proof -
  have "filter P (take m xs) = []"
    using assms(1,3) by (auto simp: filter_empty_conv in_set_conv_nth)
  moreover have "xs = take m xs @ xs ! m # drop (Suc m) xs"
    using assms(1) by (simp add: id_take_nth_drop)
  ultimately show ?thesis
    using assms(2) by (metis append_Nil filter.simps(2) filter_append)
qed

lemma filter_none:
  assumes "\<forall>i<length xs. \<not> P (xs ! i)"
  shows "filter P xs = []"
  using assms by (auto simp: filter_empty_conv in_set_conv_nth)

lemma parse_Inr:
  assumes "parse r = Inr (instructions, tags)"
  shows "\<not> scanErr r"
    and "instructions = filter isInstructionLine (stripped r)"
    and "\<exists>n. parseLoop (scanned r) ([], Map.empty, 0) = (instructions, tags, n)"
proof -
  obtain ins tg n where p: "parseLoop (scanned r) ([], Map.empty, 0) = (ins, tg, n)"
    by (cases "parseLoop (scanned r) ([], Map.empty, 0)") auto
  with assms show "\<not> scanErr r" and e: "\<exists>n. parseLoop (scanned r) ([], Map.empty, 0) = (instructions, tags, n)"
    by (auto simp: parse_def split: if_splits)
  from e show "instructions = filter isInstructionLine (stripped r)"
    using parseLoop_instructions [of "scanned r" "[]" Map.empty 0]
    by (auto simp: stripped_def)
qed

lemma parse_tag_bound:
  assumes "parse r = Inr (instructions, tags)"
    and "k < length (scanned r)"
    and "definesTag name (stripped r ! k)"
    and "\<forall>j. k < j \<and> j < length (scanned r) \<longrightarrow> \<not> definesTag name (stripped r ! j)"
  shows "tags name = Some (instrsBefore r k)"
proof -
  let ?ls = "scanned r"
  have split: "?ls = take k ?ls @ ?ls ! k # drop (Suc k) ?ls"
    using assms(2) by (simp add: id_take_nth_drop)
  have d: "definesTag name (TrimSpace (?ls ! k))"
    using assms(2,3) by (simp add: stripped_def)
  have later: "\<forall>l' \<in> set (drop (Suc k) ?ls). \<not> definesTag name (TrimSpace l')"
  proof
    fix l' assume "l' \<in> set (drop (Suc k) ?ls)"
    then obtain i where i: "i < length ?ls - Suc k" and l': "l' = ?ls ! (Suc k + i)"
      by (auto simp: in_set_conv_nth)
    then have "\<not> definesTag name (stripped r ! (Suc k + i))"
      using assms(4) by simp
    with i l' show "\<not> definesTag name (TrimSpace l')"
      by (simp add: stripped_def)
  qed
  from parse_Inr(3) [OF assms(1)] obtain n where
    "parseLoop ?ls ([], Map.empty, 0) = (instructions, tags, n)" ..
  then have "tags name = fst (snd (parseLoop (take k ?ls @ ?ls ! k # drop (Suc k) ?ls) ([], Map.empty, 0))) name"
    using split by simp
  also have "\<dots> = Some (0 + length (filter isInstructionLine (map TrimSpace (take k ?ls))))"
    by (rule parseLoop_tags_bind [OF d later])
  finally show ?thesis
    by (simp add: instrsBefore_def stripped_def take_map)
qed

lemma parse_tag_unbound:
  assumes "parse r = Inr (instructions, tags)"
    and "\<forall>k<length (scanned r). \<not> definesTag name (stripped r ! k)"
  shows "tags name = None"
proof -
  have "\<forall>l \<in> set (scanned r). \<not> definesTag name (TrimSpace l)"
    using assms(2) by (auto simp: in_set_conv_nth stripped_def)
  from parseLoop_tags_keep [OF this, of "[]" Map.empty 0] parse_Inr(3) [OF assms(1)]
  show ?thesis by auto
qed

lemma parse_next_instruction:
  assumes "parse r = Inr (instructions, tags)"
    and "k \<le> j" and "j < length (scanned r)"
    and "isInstructionLine (stripped r ! j)"
    and "\<forall>i. k \<le> i \<and> i < j \<longrightarrow> \<not> isInstructionLine (stripped r ! i)"
  shows "instrsBefore r k < length instructions \<and> instructions ! instrsBefore r k = stripped r ! j"
proof -
  let ?L = "stripped r"
  have len: "length ?L = length (scanned r)" by (simp add: stripped_def)
  have "filter isInstructionLine (drop k ?L) =
      drop k ?L ! (j - k) # filter isInstructionLine (drop (Suc (j - k)) (drop k ?L))"
  proof (rule filter_first)
    show "j - k < length (drop k ?L)" using assms(2,3) len by simp
    show "isInstructionLine (drop k ?L ! (j - k))" using assms(2,3,4) len by simp
    show "\<forall>i<j - k. \<not> isInstructionLine (drop k ?L ! i)"
      using assms(2,3,5) len by simp
  qed
  moreover have "drop k ?L ! (j - k) = ?L ! j" using assms(2,3) len by simp
  moreover have "instructions =
      filter isInstructionLine (take k ?L) @ filter isInstructionLine (drop k ?L)"
    using parse_Inr(2) [OF assms(1)] by (metis append_take_drop_id filter_append)
  ultimately show ?thesis
    by (simp add: instrsBefore_def nth_append)
qed

lemma parse_no_instruction_after:
  assumes "parse r = Inr (instructions, tags)"
    and "\<forall>i. k \<le> i \<and> i < length (scanned r) \<longrightarrow> \<not> isInstructionLine (stripped r ! i)"
  shows "instrsBefore r k = length instructions"
proof -
  let ?L = "stripped r"
  have len: "length ?L = length (scanned r)" by (simp add: stripped_def)
  have "filter isInstructionLine (drop k ?L) = []"
    by (rule filter_none) (use assms(2) len in simp)
  moreover have "instructions =
      filter isInstructionLine (take k ?L) @ filter isInstructionLine (drop k ?L)"
    using parse_Inr(2) [OF assms(1)] by (metis append_take_drop_id filter_append)
  ultimately show ?thesis
    by (simp add: instrsBefore_def)
qed

section \<open>The second pass\<close>

lemma assembleInstruction_cases:
  "(\<exists>err. assembleInstruction ops instr tags line = (Inl err, []) \<and> encode ops tags instr = Inl err)
   \<or> (\<exists>opcode dest data.
        assembleInstruction ops instr tags line =
          (Inr (opcode @ dest @ data), [Assembled line instr opcode dest data])
        \<and> encode ops tags instr = Inr (opcode @ dest @ data))"
  by (auto simp: assembleInstruction_def encode_def Let_def
      split: list.splits option.splits prod.splits sum.splits)

lemma placements_append [simp]: "placements (xs @ ys) = placements xs @ placements ys"
  by (simp add: placements_def)

lemma assembleLoop_result:
  "assembleLoop ops tags line instrs (acc, w) = (acc', w') \<Longrightarrow>
     acc' = acc @ successes ops tags instrs
   \<and> hadError w' = (hadError w \<or> (\<exists>instr \<in> set instrs. \<not> encodes ops tags instr))
   \<and> filter isFailed (stdout w') = filter isFailed (stdout w) @ reports ops tags instrs
   \<and> ((\<forall>instr \<in> set instrs. encodes ops tags instr) \<longrightarrow>
        placements (stdout w') = placements (stdout w) @ zip [line..<line + length instrs] instrs)"
proof (induction instrs arbitrary: line acc w)
  case Nil
  then show ?case by (simp add: successes_def reports_def)
next
  case (Cons instr rest)
  from assembleInstruction_cases [of ops instr tags line]
  show ?case
  proof (elim disjE exE conjE)
    fix err
    assume a: "assembleInstruction ops instr tags line = (Inl err, [])"
      and e: "encode ops tags instr = Inl err"
    from Cons.prems a have
      "assembleLoop ops tags (line + 1) rest
         (acc, (emit [Failed err instr] w)\<lparr>hadError := True\<rparr>) = (acc', w')"
      by simp
    from Cons.IH [OF this] e show ?thesis
      by (simp add: successes_def reports_def encodes_def emit_def)
  next
    fix opcode dest data
    assume a: "assembleInstruction ops instr tags line =
        (Inr (opcode @ dest @ data), [Assembled line instr opcode dest data])"
      and e: "encode ops tags instr = Inr (opcode @ dest @ data)"
    from Cons.prems a have
      "assembleLoop ops tags (line + 1) rest
         (acc @ [opcode @ dest @ data], emit [Assembled line instr opcode dest data] w) = (acc', w')"
      by simp
    moreover have "zip [line..<line + length (instr # rest)] (instr # rest) =
        (line, instr) # zip [line + 1..<line + 1 + length rest] rest"
      using upt_conv_Cons [of line "line + Suc (length rest)"] by (simp del: upt_Suc)
    moreover have "placements [Assembled line instr opcode dest data] = [(line, instr)]"
      by (simp add: placements_def)
    ultimately show ?thesis
      using Cons.IH [of "line + 1" "acc @ [opcode @ dest @ data]"
          "emit [Assembled line instr opcode dest data] w"] e
      by (simp add: successes_def reports_def encodes_def emit_def del: upt_Suc)
  qed
qed

lemma assembleProgram_result:
  assumes "assembleProgram ops instructions tags w = (program, w')"
  shows "program = successes ops tags instructions"
    and "hadError w' = (hadError w \<or> (\<exists>instr \<in> set instructions. \<not> encodes ops tags instr))"
    and "filter isFailed (stdout w') = filter isFailed (stdout w) @ reports ops tags instructions"
    and "\<forall>instr \<in> set instructions. encodes ops tags instr \<Longrightarrow>
         placements (stdout w') = placements (stdout w) @ zip [0..<length instructions] instructions"
proof -
  obtain acc v where l: "assembleLoop ops tags 0 instructions ([], emit [Heading, Dashes] w) = (acc, v)"
    by (cases "assembleLoop ops tags 0 instructions ([], emit [Heading, Dashes] w)") auto
  with assms have p: "program = acc" and w': "w' = emit [Dashes] v"
    by (simp_all add: assembleProgram_def)
  note r = assembleLoop_result [OF l]
  from r p show "program = successes ops tags instructions" by simp
  from r w' show "hadError w' = (hadError w \<or> (\<exists>instr \<in> set instructions. \<not> encodes ops tags instr))"
    by (simp add: emit_def)
  from r w' show "filter isFailed (stdout w') = filter isFailed (stdout w) @ reports ops tags instructions"
    by (simp add: emit_def)
  assume "\<forall>instr \<in> set instructions. encodes ops tags instr"
  with r w' show "placements (stdout w') = placements (stdout w) @ zip [0..<length instructions] instructions"
    by (simp add: emit_def placements_def)
qed

lemma successes_all:
  assumes "\<forall>instr \<in> set instructions. encodes ops tags instr"
  shows "map Inr (successes ops tags instructions) = map (encode ops tags) instructions"
  using assms
  by (induction instructions) (auto simp: successes_def encodes_def split: sum.splits)

lemma processData_errors:
  "processData data tags = Inl err \<Longrightarrow> err \<noteq> InvalidInstructionFormat x"
  by (auto simp: processData_def processTag_def processBinOrDecData_def Let_def
      split: if_splits option.splits)

lemma getDestAndData_format:
  assumes "getDestAndData parts = (dest, data, Some (InvalidInstructionFormat x))"
  shows "parts = [] \<or> 3 < length parts"
proof (rule ccontr)
  assume "\<not> (parts = [] \<or> 3 < length parts)"
  then consider a where "parts = [a]" | a b where "parts = [a, b]"
    | a b c where "parts = [a, b, c]"
    by (cases parts; cases "tl parts"; cases "tl (tl parts)"; cases "tl (tl (tl parts))") auto
  then show False
    using assms
    by cases (auto simp: processDestination_def split: if_splits)
qed

lemma assembleInstruction_format:
  assumes "fst (assembleInstruction ops instr tags line) = Inl (InvalidInstructionFormat x)"
  shows "Fields instr = [] \<or> 3 < length (Fields instr)"
proof (cases "Fields instr")
  case Nil
  then show ?thesis by simp
next
  case (Cons p0 ps)
  with assms obtain dest data where "getDestAndData (p0 # ps) = (dest, data, Some (InvalidInstructionFormat x))"
    by (auto simp: assembleInstruction_def Let_def processData_errors
        split: option.splits prod.splits sum.splits if_splits)
  from getDestAndData_format [OF this] Cons show ?thesis by simp
qed

lemma processData_tag:
  "tags name = Some address \<Longrightarrow>
   processData (CHR ''#'' # name) tags = Inr (Sprintf_08b (int address))"
  by (simp add: processData_def processTag_def HasPrefix_def)

section \<open>The hex image\<close>












section \<open>No more digits than needed\<close>

lemma binDigits_lower: "1 < length (binDigits n) \<Longrightarrow> 2 ^ (length (binDigits n) - 1) \<le> n"
proof (induction n rule: binDigits.induct)
  case (1 n)
  show ?case
  proof (cases "n < 2")
    case True
    then have "binDigits n = [char_of (48 + n)]"
      by (subst binDigits.simps) simp
    with 1(2) show ?thesis by simp
  next
    case False
    then have len: "length (binDigits n) = Suc (length (binDigits (n div 2)))"
      by (subst binDigits.simps) simp
    show ?thesis
    proof (cases "1 < length (binDigits (n div 2))")
      case True
      with 1(1) [OF False] have "2 ^ (length (binDigits (n div 2)) - 1) \<le> n div 2" .
      then have "2 * 2 ^ (length (binDigits (n div 2)) - 1) \<le> n" by linarith
      moreover obtain j where j: "length (binDigits (n div 2)) = Suc j"
        using True by (cases "length (binDigits (n div 2))") auto
      ultimately have "2 ^ length (binDigits (n div 2)) \<le> n" by simp
      then show ?thesis by (simp only: len diff_Suc_1)
    next
      case F: False
      have "binDigits (n div 2) \<noteq> []" by (rule binDigits_nonempty)
      with F have "length (binDigits (n div 2)) = 1"
        by (cases "binDigits (n div 2)") auto
      with False show ?thesis by (simp only: len diff_Suc_1) simp
    qed
  qed
qed

lemma Sprintf_08b_minimal:
  assumes "0 \<le> n" and "8 < length (Sprintf_08b n)"
  shows "2 ^ (length (Sprintf_08b n) - 1) \<le> n"
proof -
  from assms have l: "length (Sprintf_08b n) = length (binDigits (nat n))"
    by (simp add: Sprintf_08b_nonneg(3))
  with assms(2) have "1 < length (binDigits (nat n))" by simp
  then have "2 ^ (length (binDigits (nat n)) - 1) \<le> nat n" by (rule binDigits_lower)
  then have "int (2 ^ (length (binDigits (nat n)) - 1)) \<le> int (nat n)" by (rule of_nat_mono)
  with assms(1) show ?thesis by (simp add: l)
qed

lemma assemble_reference:
  assumes "Fields instr = [mnemonic, CHR ''#'' # name]" and "ops mnemonic = Some opcode"
    and "processData (CHR ''#'' # name) tags = Inr data"
  shows "fst (assembleInstruction ops instr tags line) = Inr (opcode @ ''0'' @ data)"
  using assms by (simp add: assembleInstruction_def isDestination_def)

lemma encode_any_line: "fst (assembleInstruction ops instr tags line) = encode ops tags instr"
  using assembleInstruction_cases [of ops instr tags line] by auto

section \<open>The claims\<close>

text \<open>
  C8: the data token \<open>0b00001010\<close> and the decimal data token \<open>10\<close> give the same
  data field, \<open>00001010\<close>; for every value from 0 to 255, the decimal token and the
  8-digit \<open>0b\<close> token of the value encode to the same 8-bit data field. This holds
  for the plain decimal token of the value and for every numeric token with that
  value.
\<close>

theorem binary_and_decimal_agree:
  assumes "v \<le> 255"
  shows "processBinOrDecData (decDigits v) = Inr (zeroPad 8 (binDigits v))
       \<and> processBinOrDecData (''0b'' @ zeroPad 8 (binDigits v)) = Inr (zeroPad 8 (binDigits v))
       \<and> (\<forall>data. isNumeric data \<and> numericValue data = int v \<longrightarrow>
             processBinOrDecData data = processBinOrDecData (''0b'' @ zeroPad 8 (binDigits v)))
       \<and> length (zeroPad 8 (binDigits v)) = 8
       \<and> list_all (isDigit 2) (zeroPad 8 (binDigits v))
       \<and> digitsVal 2 (zeroPad 8 (binDigits v)) = v"
proof -
  have range: "inIntRange (int v)"
    using assms by (simp add: inIntRange_def)
  have dec: "processBinOrDecData data = Inr (zeroPad 8 (binDigits v))"
    if "isNumeric data" and "numericValue data = int v" for data
    using that range numeric_no_0b [OF that(1)]
    by (simp add: processBinOrDecData_decimal Sprintf_08b_def)
  have len: "length (zeroPad 8 (binDigits v)) = 8"
    using assms by (rule byte_field)
  have bin: "processBinOrDecData (''0b'' @ zeroPad 8 (binDigits v)) = Inr (zeroPad 8 (binDigits v))"
    using len processBinOrDecData_binary [of "zeroPad 8 (binDigits v)"] by simp
  show ?thesis
    using dec [of "decDigits v"] dec bin len decDigits_numeric [of v]
    by (simp add: zeroPad_digits binDigits_digits digitsVal_zeroPad binDigits_val)
qed

theorem binary_and_decimal_agree_witness:
  "(10::nat) \<le> 255 \<and> decDigits 10 = ''10'' \<and> zeroPad 8 (binDigits 10) = ''00001010''
   \<and> processBinOrDecData ''10'' = Inr ''00001010''
   \<and> processBinOrDecData ''0b00001010'' = Inr ''00001010''
   \<and> isNumeric ''+010'' \<and> numericValue ''+010'' = 10
   \<and> processBinOrDecData ''+010'' = processBinOrDecData ''0b00001010''"
proof -
  have d: "decDigits 10 = ''10''" by code_simp
  have b: "zeroPad 8 (binDigits 10) = ''00001010''" by code_simp
  have n: "isNumeric ''+010'' \<and> numericValue ''+010'' = int 10" by code_simp
  from binary_and_decimal_agree [of 10] n show ?thesis
    unfolding d b by simp
qed

text \<open>
  C1: a data token that starts with \<open>0b\<close> should fail with \<open>binary data should be
  8 bits long\<close> unless what follows the prefix is exactly 8 binary digits. The
  code tests the length only: the token \<open>0b0000000x\<close> is taken, its 8 bytes become
  the data field as they are, and the hex image of the program then panics in
  \<open>strconv.ParseInt\<close>.
\<close>

theorem binary_literal_digits_unchecked:
  "processBinOrDecData ''0b0000000x'' = Inr ''0000000x''
   \<and> fst (assembleInstruction sampleOps ''LOD R1 0b0000000x'' Map.empty 0)
       = Inr ''00000110000000x''
   \<and> mainRun sampleOps \<lparr>scanned = [''LOD R1 0b0000000x''], scanErr = False\<rparr>
       = Inl (ParseIntPanic ''00000110000000x'')"
  by code_simp

text \<open>
  C7, as stated: a data token without a \<open>#\<close> or \<open>0b\<close> prefix fails with \<open>invalid
  decimal data\<close> exactly when it is not numeric. The numeric token
  \<open>9223372036854775808\<close> (2 to the 63) fails: it is out of the range of \<open>int\<close>.
\<close>

theorem decimal_out_of_range_counterexample:
  "\<not> HasPrefix ''9223372036854775808'' ''#'' \<and> \<not> HasPrefix ''9223372036854775808'' ''0b''
   \<and> isNumeric ''9223372036854775808''
   \<and> processData ''9223372036854775808'' Map.empty
       = Inl (InvalidDecimalData ''9223372036854775808'')"
  by (simp add: processData_def processBinOrDecData_decimal HasPrefix_def isNumeric_def
      isDigit_def numericValue_def digitsVal_def digitVal_def inIntRange_def)

text \<open>
  C7, amended: a data token without a \<open>#\<close> or \<open>0b\<close> prefix fails with \<open>invalid
  decimal data\<close> exactly when it is not a numeric token with a value in the range
  of a 64-bit \<open>int\<close>; otherwise its value is rendered with \<open>%08b\<close>. A value that
  is not negative is rendered as binary digits with the same value, at least 8 of
  them, and more than 8 exactly when the value is above 255, then without a
  leading zero: such a value is not rejected (\<open>999999\<close> gives a field of 20
  digits).
\<close>

theorem decimal_data_encoding:
  assumes "\<not> HasPrefix data ''#''" and "\<not> HasPrefix data ''0b''"
  shows "(processData data tags = Inl (InvalidDecimalData data)
            \<longleftrightarrow> \<not> (isNumeric data \<and> inIntRange (numericValue data)))
       \<and> (isNumeric data \<and> inIntRange (numericValue data)
            \<longrightarrow> processData data tags = Inr (Sprintf_08b (numericValue data)))
       \<and> (0 \<le> numericValue data
            \<longrightarrow> list_all (isDigit 2) (Sprintf_08b (numericValue data))
              \<and> int (digitsVal 2 (Sprintf_08b (numericValue data))) = numericValue data
              \<and> 8 \<le> length (Sprintf_08b (numericValue data))
              \<and> (255 < numericValue data \<longleftrightarrow> 8 < length (Sprintf_08b (numericValue data)))
              \<and> (8 < length (Sprintf_08b (numericValue data))
                   \<longrightarrow> 2 ^ (length (Sprintf_08b (numericValue data)) - 1) \<le> numericValue data))"
proof -
  have "processData data tags =
      (if isNumeric data \<and> inIntRange (numericValue data)
       then Inr (Sprintf_08b (numericValue data)) else Inl (InvalidDecimalData data))"
    using assms by (simp add: processData_plain processBinOrDecData_decimal)
  moreover have "8 \<le> length (Sprintf_08b n)" if "0 \<le> n" for n
    using that by (simp add: Sprintf_08b_nonneg(3))
  ultimately show ?thesis
    using Sprintf_08b_nonneg(1,2) Sprintf_08b_wide Sprintf_08b_minimal by auto
qed

theorem decimal_data_encoding_witness:
  "\<not> HasPrefix ''999999'' ''#'' \<and> \<not> HasPrefix ''999999'' ''0b''
   \<and> isNumeric ''999999'' \<and> numericValue ''999999'' = 999999 \<and> inIntRange 999999
   \<and> processData ''999999'' Map.empty = Inr ''11110100001000111111''
   \<and> processData ''1x'' Map.empty = Inl (InvalidDecimalData ''1x'')
   \<and> length ''11110100001000111111'' = 20"
proof -
  have p: "\<not> HasPrefix ''999999'' ''#''" "\<not> HasPrefix ''999999'' ''0b''"
    by (simp_all add: HasPrefix_def)
  have q: "\<not> HasPrefix ''1x'' ''#''" "\<not> HasPrefix ''1x'' ''0b''"
    by (simp_all add: HasPrefix_def)
  have n: "isNumeric ''999999''" "numericValue ''999999'' = 999999" "inIntRange 999999"
    "\<not> isNumeric ''1x''"
    by (simp_all add: isNumeric_def isDigit_def numericValue_def digitsVal_def digitVal_def
        inIntRange_def)
  have s: "Sprintf_08b 999999 = ''11110100001000111111''"
    by (simp add: eval_digits)
  from decimal_data_encoding [OF p, of Map.empty] decimal_data_encoding [OF q, of Map.empty]
  show ?thesis using p n s by simp
qed

text \<open>
  C10, as stated: every data token that is a negative decimal literal parses and
  does not fail with \<open>invalid decimal data\<close>. The token \<open>-9223372036854775809\<close>
  (below minus 2 to the 63) fails with that error.
\<close>

theorem negative_out_of_range_counterexample:
  "isNumeric ''-9223372036854775809'' \<and> numericValue ''-9223372036854775809'' < 0
   \<and> processData ''-9223372036854775809'' Map.empty
       = Inl (InvalidDecimalData ''-9223372036854775809'')"
  by (simp add: processData_def processBinOrDecData_decimal HasPrefix_def isNumeric_def
      isDigit_def numericValue_def digitsVal_def digitVal_def inIntRange_def)

text \<open>
  C10, amended: a numeric data token with a negative value not below minus 2 to
  the 63 does not fail: it is rendered by \<open>%08b\<close> as a minus sign and then the
  binary digits of the absolute value padded with zeros to at least 7 digits, so
  the data field starts with \<open>-\<close>, has at least 8 bytes and is not a string of
  binary digits.
\<close>

theorem negative_decimal_data:
  assumes "isNumeric data" and "numericValue data < 0" and "- (2 ^ 63) \<le> numericValue data"
  shows "processData data tags = Inr (Sprintf_08b (numericValue data))
       \<and> Sprintf_08b (numericValue data)
           = CHR ''-'' # zeroPad 7 (binDigits (nat (- numericValue data)))
       \<and> 8 \<le> length (Sprintf_08b (numericValue data))
       \<and> \<not> list_all (isDigit 2) (Sprintf_08b (numericValue data))"
proof -
  have "inIntRange (numericValue data)"
    using assms(2,3) by (simp add: inIntRange_def)
  then have "processData data tags = Inr (Sprintf_08b (numericValue data))"
    using assms(1) numeric_no_0b [OF assms(1)] numeric_no_hash [OF assms(1)]
    by (simp add: processData_plain processBinOrDecData_decimal)
  moreover have "Sprintf_08b (numericValue data)
      = CHR ''-'' # zeroPad 7 (binDigits (nat (- numericValue data)))"
    using assms(2) by (simp add: Sprintf_08b_def)
  ultimately show ?thesis
    by (simp add: length_zeroPad isDigit_def)
qed

theorem negative_decimal_data_witness:
  "isNumeric ''-5'' \<and> numericValue ''-5'' = - 5
   \<and> processData ''-5'' Map.empty = Inr ''-0000101''
   \<and> mainRun sampleOps \<lparr>scanned = [''LOD -5''], scanErr = False\<rparr>
       = Inl (ParseIntPanic ''0000010-0000101'')"
proof -
  have n: "isNumeric ''-5''" "numericValue ''-5'' = - 5"
    by (simp_all add: isNumeric_def isDigit_def numericValue_def digitsVal_def digitVal_def)
  have s: "Sprintf_08b (- 5) = ''-0000101''" by code_simp
  have m: "mainRun sampleOps \<lparr>scanned = [''LOD -5''], scanErr = False\<rparr>
       = Inl (ParseIntPanic ''0000010-0000101'')" by code_simp
  from negative_decimal_data [OF n(1), of Map.empty] n s m show ?thesis by simp
qed

text \<open>
  C3: for an instruction line whose mnemonic is in the opcode table. Without an
  operand the destination field is \<open>0\<close> and the data field is eight \<open>0\<close> bits.
  One operand is the destination when it is \<open>R0\<close> (\<open>0\<close>) or \<open>R1\<close> (\<open>1\<close>), with
  the data field of eight \<open>0\<close> bits, and is the data operand otherwise, with
  destination \<open>0\<close>. Of two operands the first must be \<open>R0\<close> or \<open>R1\<close>, or the
  encoder fails with \<open>invalid destination\<close>, and the second is the data operand.
  More than two operands fail with \<open>invalid instruction format\<close>. The printed
  line shows the opcode, destination and data fields.
\<close>

theorem operand_forms:
  assumes "Fields instruction = mnemonic # operands" and "ops mnemonic = Some opcode"
  shows "(operands = [] \<longrightarrow>
            assembleInstruction ops instruction tags line =
              (Inr (opcode @ ''0'' @ ''00000000''),
               [Assembled line instruction opcode ''0'' ''00000000'']))
       \<and> (operands = [''R0''] \<longrightarrow>
            assembleInstruction ops instruction tags line =
              (Inr (opcode @ ''0'' @ ''00000000''),
               [Assembled line instruction opcode ''0'' ''00000000'']))
       \<and> (operands = [''R1''] \<longrightarrow>
            assembleInstruction ops instruction tags line =
              (Inr (opcode @ ''1'' @ ''00000000''),
               [Assembled line instruction opcode ''1'' ''00000000'']))
       \<and> (\<forall>t. operands = [t] \<and> t \<noteq> ''R0'' \<and> t \<noteq> ''R1'' \<longrightarrow>
            assembleInstruction ops instruction tags line =
              (case processData t tags of
                 Inl err \<Rightarrow> (Inl err, [])
               | Inr data \<Rightarrow>
                   (Inr (opcode @ ''0'' @ data),
                    [Assembled line instruction opcode ''0'' data])))
       \<and> (\<forall>t. operands = [''R0'', t] \<longrightarrow>
            assembleInstruction ops instruction tags line =
              (case processData t tags of
                 Inl err \<Rightarrow> (Inl err, [])
               | Inr data \<Rightarrow>
                   (Inr (opcode @ ''0'' @ data),
                    [Assembled line instruction opcode ''0'' data])))
       \<and> (\<forall>t. operands = [''R1'', t] \<longrightarrow>
            assembleInstruction ops instruction tags line =
              (case processData t tags of
                 Inl err \<Rightarrow> (Inl err, [])
               | Inr data \<Rightarrow>
                   (Inr (opcode @ ''1'' @ data),
                    [Assembled line instruction opcode ''1'' data])))
       \<and> (\<forall>d t. operands = [d, t] \<and> d \<noteq> ''R0'' \<and> d \<noteq> ''R1'' \<longrightarrow>
            assembleInstruction ops instruction tags line = (Inl (InvalidDestination d), []))
       \<and> (2 < length operands \<longrightarrow>
            assembleInstruction ops instruction tags line =
              (Inl (InvalidInstructionFormat (Join (mnemonic # operands))), []))"
proof -
  have tok: "t \<noteq> []" if "t \<in> set operands" for t
    using that Fields_tokens [of t instruction] assms(1) by simp
  have many: "getDestAndData (mnemonic # operands) =
      ([], [], Some (InvalidInstructionFormat (Join (mnemonic # operands))))"
    if "2 < length operands"
  proof -
    from that obtain a b c rest where "operands = a # b # c # rest"
      by (cases operands; cases "tl operands"; cases "tl (tl operands)") auto
    then show ?thesis by simp
  qed
  show ?thesis
    using assms tok many
    by (auto simp: assembleInstruction_def isDestination_def processDestination_def
        Repeat_zero8 Let_def split: sum.splits)
qed

theorem operand_forms_witness:
  "Fields ''BRN'' = [''BRN''] \<and> sampleOps ''BRN'' = Some ''000100''
   \<and> assembleInstruction sampleOps ''BRN'' Map.empty 3 =
        (Inr ''000100000000000'', [Assembled 3 ''BRN'' ''000100'' ''0'' ''00000000''])
   \<and> Fields ''LOD R1'' = [''LOD'', ''R1''] \<and> sampleOps ''LOD'' = Some ''000001''
   \<and> assembleInstruction sampleOps ''LOD R1'' Map.empty 0 =
        (Inr ''000001100000000'', [Assembled 0 ''LOD R1'' ''000001'' ''1'' ''00000000''])
   \<and> Fields ''LOD 7'' = [''LOD'', ''7'']
   \<and> assembleInstruction sampleOps ''LOD 7'' Map.empty 0 =
        (Inr ''000001000000111'', [Assembled 0 ''LOD 7'' ''000001'' ''0'' ''00000111''])
   \<and> Fields ''LOD R1 10'' = [''LOD'', ''R1'', ''10'']
   \<and> assembleInstruction sampleOps ''LOD R1 10'' Map.empty 0 =
        (Inr ''000001100001010'', [Assembled 0 ''LOD R1 10'' ''000001'' ''1'' ''00001010''])
   \<and> Fields ''LOD R2 10'' = [''LOD'', ''R2'', ''10'']
   \<and> assembleInstruction sampleOps ''LOD R2 10'' Map.empty 0 =
        (Inl (InvalidDestination ''R2''), [])
   \<and> Fields ''LOD R1 2 3'' = [''LOD'', ''R1'', ''2'', ''3'']
   \<and> assembleInstruction sampleOps ''LOD R1 2 3'' Map.empty 0 =
        (Inl (InvalidInstructionFormat ''LOD R1 2 3''), [])"
proof -
  have f: "Fields ''BRN'' = [''BRN'']" "Fields ''LOD R1'' = [''LOD'', ''R1'']"
    "Fields ''LOD 7'' = [''LOD'', ''7'']" "Fields ''LOD R1 10'' = [''LOD'', ''R1'', ''10'']"
    "Fields ''LOD R2 10'' = [''LOD'', ''R2'', ''10'']"
    "Fields ''LOD R1 2 3'' = [''LOD'', ''R1'', ''2'', ''3'']"
    by code_simp+
  have o: "sampleOps ''BRN'' = Some ''000100''" "sampleOps ''LOD'' = Some ''000001''"
    by (simp_all add: sampleOps_def)
  have d: "processData ''7'' Map.empty = Inr ''00000111''"
    "processData ''10'' Map.empty = Inr ''00001010''"
    by code_simp+
  note operand_forms [of "''BRN''" "''BRN''" "[]" sampleOps "''000100''" Map.empty 3]
    operand_forms [of "''LOD R1''" "''LOD''" "[''R1'']" sampleOps "''000001''" Map.empty 0]
    operand_forms [of "''LOD 7''" "''LOD''" "[''7'']" sampleOps "''000001''" Map.empty 0]
    operand_forms [of "''LOD R1 10''" "''LOD''" "[''R1'', ''10'']" sampleOps "''000001''"
      Map.empty 0]
    operand_forms [of "''LOD R2 10''" "''LOD''" "[''R2'', ''10'']" sampleOps "''000001''"
      Map.empty 0]
    operand_forms [of "''LOD R1 2 3''" "''LOD''" "[''R1'', ''2'', ''3'']" sampleOps
      "''000001''" Map.empty 0]
  then
  show ?thesis using f o d by simp
qed

text \<open>
  C9: every instruction line that \<open>parse\<close> produces is a stripped line that is
  not empty, so \<open>strings.Fields\<close> gives at least one token for it and the test
  \<open>len(parts) < 1\<close> of the encoder is false: for such a line the error \<open>invalid
  instruction format\<close> only comes from more than two operands.
\<close>

theorem parsed_line_has_a_token:
  assumes "parse r = Inr (instructions, tags)" and "instr \<in> set instructions"
  shows "instr \<noteq> [] \<and> TrimSpace instr = instr \<and> Fields instr \<noteq> []
       \<and> 1 \<le> length (Fields instr)
       \<and> (\<forall>ops tags' line x.
            fst (assembleInstruction ops instr tags' line) = Inl (InvalidInstructionFormat x)
            \<longrightarrow> 3 < length (Fields instr))"
proof -
  from parse_Inr(2) [OF assms(1)] assms(2)
  obtain raw where t: "instr = TrimSpace raw" and ne: "instr \<noteq> []"
    by (auto simp: stripped_def isInstructionLine_def)
  from t ne have f: "Fields instr \<noteq> []"
    using Fields_TrimSpace [of raw] by simp
  then have "1 \<le> length (Fields instr)"
    by (cases "Fields instr") auto
  with t ne f show ?thesis
    using assembleInstruction_format [of _ instr] by (auto simp: TrimSpace_idem)
qed

theorem parsed_line_has_a_token_witness:
  "parse \<lparr>scanned = [''// first'', ''  SUB R0 1  '', []], scanErr = False\<rparr>
     = Inr ([''SUB R0 1''], Map.empty)
   \<and> ''SUB R0 1'' \<in> set [''SUB R0 1'']
   \<and> TrimSpace ''SUB R0 1'' = ''SUB R0 1''
   \<and> Fields ''SUB R0 1'' = [''SUB'', ''R0'', ''1'']"
proof -
  have t: "TrimSpace ''// first'' = ''// first''" "TrimSpace ''  SUB R0 1  '' = ''SUB R0 1''"
    "TrimSpace [] = []"
    by code_simp+
  have p: "parse \<lparr>scanned = [''// first'', ''  SUB R0 1  '', []], scanErr = False\<rparr>
     = Inr ([''SUB R0 1''], Map.empty)"
    by (simp add: parse_def t isComment_def isTag_def HasPrefix_def)
  have f: "Fields ''SUB R0 1'' = [''SUB'', ''R0'', ''1'']" by code_simp
  from parsed_line_has_a_token [OF p, of "''SUB R0 1''"] p f show ?thesis by simp
qed

text \<open>
  C2: the first pass binds each tag name to the value of the running instruction
  counter at its definition. So the tag of the last definition of a name in the
  source maps to the number of instruction lines before that definition, and a
  reference \<open>#name\<close> is rendered as that address, wherever the reference stands
  (the table is complete before any line is encoded). That number is the index,
  among the instruction lines, of the next instruction line after the definition;
  it is the total instruction count when no instruction line follows. A name
  that no line defines is not in the table.
\<close>

theorem tags_bind_next_instruction:
  assumes "parse r = Inr (instructions, tags)"
  shows "(\<forall>k name. k < length (scanned r) \<and> definesTag name (stripped r ! k)
            \<and> (\<forall>j. k < j \<and> j < length (scanned r) \<longrightarrow> \<not> definesTag name (stripped r ! j))
          \<longrightarrow> tags name = Some (instrsBefore r k)
            \<and> processData (CHR ''#'' # name) tags = Inr (Sprintf_08b (int (instrsBefore r k)))
            \<and> (\<forall>ops instr line mnemonic opcode.
                 Fields instr = [mnemonic, CHR ''#'' # name] \<and> ops mnemonic = Some opcode
                 \<longrightarrow> fst (assembleInstruction ops instr tags line)
                       = Inr (opcode @ ''0'' @ Sprintf_08b (int (instrsBefore r k)))))
       \<and> (\<forall>k j. k \<le> j \<and> j < length (scanned r) \<and> isInstructionLine (stripped r ! j)
            \<and> (\<forall>i. k \<le> i \<and> i < j \<longrightarrow> \<not> isInstructionLine (stripped r ! i))
          \<longrightarrow> instrsBefore r k < length instructions
            \<and> instructions ! instrsBefore r k = stripped r ! j)
       \<and> (\<forall>k. (\<forall>i. k \<le> i \<and> i < length (scanned r) \<longrightarrow> \<not> isInstructionLine (stripped r ! i))
          \<longrightarrow> instrsBefore r k = length instructions)
       \<and> (\<forall>name. (\<forall>k<length (scanned r). \<not> definesTag name (stripped r ! k))
          \<longrightarrow> tags name = None)"
proof (intro conjI allI impI)
  fix k name
  assume a: "k < length (scanned r) \<and> definesTag name (stripped r ! k)
      \<and> (\<forall>j. k < j \<and> j < length (scanned r) \<longrightarrow> \<not> definesTag name (stripped r ! j))"
  then show b: "tags name = Some (instrsBefore r k)"
    using parse_tag_bound [OF assms, of k name] by simp
  then show c: "processData (CHR ''#'' # name) tags = Inr (Sprintf_08b (int (instrsBefore r k)))"
    by (rule processData_tag)
  fix ops :: opcodes and instr line mnemonic opcode
  assume "Fields instr = [mnemonic, CHR ''#'' # name] \<and> ops mnemonic = Some opcode"
  with c show "fst (assembleInstruction ops instr tags line)
      = Inr (opcode @ ''0'' @ Sprintf_08b (int (instrsBefore r k)))"
    by (simp add: assemble_reference)
next
  fix k j
  assume a: "k \<le> j \<and> j < length (scanned r) \<and> isInstructionLine (stripped r ! j)
      \<and> (\<forall>i. k \<le> i \<and> i < j \<longrightarrow> \<not> isInstructionLine (stripped r ! i))"
  then have "instrsBefore r k < length instructions
      \<and> instructions ! instrsBefore r k = stripped r ! j"
    using parse_next_instruction [OF assms, of k j] by simp
  then show "instrsBefore r k < length instructions"
    and "instructions ! instrsBefore r k = stripped r ! j"
    by simp_all
next
  fix k
  assume "\<forall>i. k \<le> i \<and> i < length (scanned r) \<longrightarrow> \<not> isInstructionLine (stripped r ! i)"
  then show "instrsBefore r k = length instructions"
    by (rule parse_no_instruction_after [OF assms])
next
  fix name
  assume "\<forall>k<length (scanned r). \<not> definesTag name (stripped r ! k)"
  then show "tags name = None"
    by (rule parse_tag_unbound [OF assms])
qed

theorem tags_bind_next_instruction_witness:
  "parse \<lparr>scanned = twiceSource, scanErr = False\<rparr>
     = Inr ([''BRN #end'', ''LOD 1'', ''BRN #end''], [''end'' \<mapsto> 2, ''last'' \<mapsto> 3])
   \<and> definesTag ''end'' (stripped \<lparr>scanned = twiceSource, scanErr = False\<rparr> ! 1)
   \<and> definesTag ''end'' (stripped \<lparr>scanned = twiceSource, scanErr = False\<rparr> ! 3)
   \<and> instrsBefore \<lparr>scanned = twiceSource, scanErr = False\<rparr> 3 = 2
   \<and> stripped \<lparr>scanned = twiceSource, scanErr = False\<rparr> ! 4 = ''BRN #end''
   \<and> [''BRN #end'', ''LOD 1'', ''BRN #end''] ! 2 = ''BRN #end''
   \<and> processData ''#end'' [''end'' \<mapsto> 2, ''last'' \<mapsto> 3] = Inr ''00000010''
   \<and> fst (assembleInstruction sampleOps ''BRN #end'' [''end'' \<mapsto> 2, ''last'' \<mapsto> 3] 0)
     = Inr ''000100000000010''
   \<and> definesTag ''last'' (stripped \<lparr>scanned = twiceSource, scanErr = False\<rparr> ! 5)
   \<and> instrsBefore \<lparr>scanned = twiceSource, scanErr = False\<rparr> 5 = 3
   \<and> processData ''#last'' [''end'' \<mapsto> 2, ''last'' \<mapsto> 3] = Inr ''00000011''
   \<and> [''end'' \<mapsto> 2, ''last'' \<mapsto> 3] ''loop'' = (None :: nat option)"
proof -
  let ?r = "\<lparr>scanned = twiceSource, scanErr = False\<rparr>"
  let ?tags = "[''end'' \<mapsto> 2, ''last'' \<mapsto> 3 :: nat]"
  have t: "TrimSpace ''BRN #end'' = ''BRN #end''" "TrimSpace ''#end'' = ''#end''"
    "TrimSpace ''LOD 1'' = ''LOD 1''" "TrimSpace ''#last'' = ''#last''"
    by code_simp+
  have "stripped ?r = twiceSource"
    by (simp add: stripped_def twiceSource_def t)
  note s = this [unfolded twiceSource_def]
  have p: "parse ?r = Inr ([''BRN #end'', ''LOD 1'', ''BRN #end''], ?tags)"
    by (simp add: parse_def twiceSource_def t isComment_def isTag_def HasPrefix_def Let_def
        eval_nat_numeral)
  have d: "definesTag ''end'' (stripped ?r ! 1)" "definesTag ''end'' (stripped ?r ! 3)"
    "definesTag ''last'' (stripped ?r ! 5)"
    by (simp_all add: s twiceSource_def definesTag_def isComment_def isTag_def HasPrefix_def)
  have c: "instrsBefore ?r 3 = 2" "instrsBefore ?r 5 = 3"
    by (simp_all add: instrsBefore_def s twiceSource_def isInstructionLine_def isComment_def
        isTag_def HasPrefix_def)
  have b: "Sprintf_08b 2 = ''00000010''" "Sprintf_08b 3 = ''00000011''"
    by code_simp+
  have later: "\<forall>j. 3 < j \<and> j < length (scanned ?r) \<longrightarrow> \<not> definesTag ''end'' (stripped ?r ! j)"
  proof (intro allI impI)
    fix j :: nat
    assume "3 < j \<and> j < length (scanned ?r)"
    then have "j = 4 \<or> j = 5" by (auto simp: twiceSource_def)
    then show "\<not> definesTag ''end'' (stripped ?r ! j)"
      by (auto simp: s twiceSource_def definesTag_def)
  qed
  have last: "\<forall>j. 5 < j \<and> j < length (scanned ?r) \<longrightarrow> \<not> definesTag ''last'' (stripped ?r ! j)"
    by (auto simp: twiceSource_def)
  have before: "\<forall>i. 3 \<le> i \<and> i < 4 \<longrightarrow> \<not> isInstructionLine (stripped ?r ! i)"
  proof (intro allI impI)
    fix i :: nat
    assume "3 \<le> i \<and> i < 4"
    then have "i = 3" by simp
    then show "\<not> isInstructionLine (stripped ?r ! i)"
      by (simp add: s twiceSource_def isInstructionLine_def isTag_def HasPrefix_def)
  qed
  have none: "\<forall>k<length (scanned ?r). \<not> definesTag ''loop'' (stripped ?r ! k)"
    by (auto simp: s twiceSource_def definesTag_def in_set_conv_nth less_Suc_eq
        numeral_eq_Suc)
  have l: "3 < length (scanned ?r)" "5 < length (scanned ?r)" "(3::nat) \<le> 4"
    "4 < length (scanned ?r)"
    by (simp_all add: twiceSource_def)
  have i4: "isInstructionLine (stripped ?r ! 4)"
    by (simp add: s twiceSource_def isInstructionLine_def isComment_def isTag_def
        HasPrefix_def)
  note main = tags_bind_next_instruction [OF p]
  note bound = main [THEN conjunct1, rule_format]
  note nxt = main [THEN conjunct2, THEN conjunct1, rule_format]
  note unbound = main [THEN conjunct2, THEN conjunct2, THEN conjunct2, rule_format]
  have "processData ''#end'' ?tags = Inr (Sprintf_08b (int (instrsBefore ?r 3)))"
    using bound [of 3 "''end''"] l(1) d(2) later by blast
  moreover have "fst (assembleInstruction sampleOps ''BRN #end'' ?tags 0)
      = Inr (''000100'' @ ''0'' @ Sprintf_08b (int (instrsBefore ?r 3)))"
  proof -
    have "Fields ''BRN #end'' = [''BRN'', CHR ''#'' # ''end'']" by code_simp
    moreover have "sampleOps ''BRN'' = Some ''000100''" by (simp add: sampleOps_def)
    ultimately show ?thesis
      using bound [of 3 "''end''"] l(1) d(2) later by blast
  qed
  moreover have "processData ''#last'' ?tags = Inr (Sprintf_08b (int (instrsBefore ?r 5)))"
    using bound [of 5 "''last''"] l(2) d(3) last by blast
  moreover have "[''BRN #end'', ''LOD 1'', ''BRN #end''] ! instrsBefore ?r 3 = stripped ?r ! 4"
    using nxt [of 3 4] l(3,4) i4 before by blast
  moreover have "?tags ''loop'' = None"
    using unbound [of "''loop''"] none by blast
  ultimately show ?thesis
    using p d c b by (simp add: s twiceSource_def)
qed

text \<open>
  C6: when every instruction line of a source encodes, the output program has as
  many instructions as the source has lines that are, once stripped, not blank,
  not a comment and not a tag definition; the instruction at index \<open>i\<close> of the
  program is the encoding of the \<open>i\<close>-th such line, and the encoder is given the
  addresses 0, 1, 2, ... for them in source order. No failure is flagged.
\<close>

theorem instructions_placed_densely:
  assumes "parse r = Inr (instructions, tags)"
    and "assembleProgram ops instructions tags w = (program, w')"
    and "\<forall>instr \<in> set instructions. encodes ops tags instr"
  shows "length program = length (filter isInstructionLine (stripped r))
       \<and> (\<forall>i<length program.
            fst (assembleInstruction ops (filter isInstructionLine (stripped r) ! i) tags i)
              = Inr (program ! i))
       \<and> placements (stdout w') =
           placements (stdout w)
             @ zip [0..<length program] (filter isInstructionLine (stripped r))
       \<and> hadError w' = hadError w"
proof -
  note i = parse_Inr(2) [OF assms(1)]
  note a = assembleProgram_result [OF assms(2)]
  have m: "map Inr program = map (encode ops tags) instructions"
    using successes_all [OF assms(3)] a(1) by simp
  then have len: "length program = length instructions"
    by (metis length_map)
  have "encode ops tags (instructions ! i) = Inr (program ! i)" if "i < length program" for i
    using that m len by (metis nth_map)
  with len a(2) a(4) [OF assms(3)] assms(3) i show ?thesis
    by (auto simp: encode_any_line)
qed

theorem instructions_placed_densely_witness:
  "parse \<lparr>scanned = sampleSource, scanErr = False\<rparr>
     = Inr ([''LOD R0 10'', ''SUB R0 1'', ''BRZ R0 #end'', ''BRN #loop'', ''BRN #end''],
            [''loop'' \<mapsto> 1, ''end'' \<mapsto> 4])
   \<and> assembleProgram sampleOps
        [''LOD R0 10'', ''SUB R0 1'', ''BRZ R0 #end'', ''BRN #loop'', ''BRN #end'']
        [''loop'' \<mapsto> 1, ''end'' \<mapsto> 4] \<lparr>hadError = False, stdout = []\<rparr>
     = ([''000001000001010'', ''000010000000001'', ''000011000000100'', ''000100000000001'',
         ''000100000000100''],
        \<lparr>hadError = False,
         stdout = [Heading, Dashes,
           Assembled 0 ''LOD R0 10'' ''000001'' ''0'' ''00001010'',
           Assembled 1 ''SUB R0 1'' ''000010'' ''0'' ''00000001'',
           Assembled 2 ''BRZ R0 #end'' ''000011'' ''0'' ''00000100'',
           Assembled 3 ''BRN #loop'' ''000100'' ''0'' ''00000001'',
           Assembled 4 ''BRN #end'' ''000100'' ''0'' ''00000100'',
           Dashes]\<rparr>)
   \<and> filter isInstructionLine (stripped \<lparr>scanned = sampleSource, scanErr = False\<rparr>)
     = [''LOD R0 10'', ''SUB R0 1'', ''BRZ R0 #end'', ''BRN #loop'', ''BRN #end'']
   \<and> fst (assembleInstruction sampleOps ''BRZ R0 #end'' [''loop'' \<mapsto> 1, ''end'' \<mapsto> 4] 2)
     = Inr ''000011000000100''"
proof -
  let ?r = "\<lparr>scanned = sampleSource, scanErr = False\<rparr>"
  let ?tags = "[''loop'' \<mapsto> 1, ''end'' \<mapsto> 4 :: nat]"
  let ?ins = "[''LOD R0 10'', ''SUB R0 1'', ''BRZ R0 #end'', ''BRN #loop'', ''BRN #end'']"
  have t: "TrimSpace ''// Load 10 into R0'' = ''// Load 10 into R0''"
    "TrimSpace ''LOD R0 10'' = ''LOD R0 10''" "TrimSpace [] = []"
    "TrimSpace ''#loop'' = ''#loop''" "TrimSpace ''  SUB R0 1'' = ''SUB R0 1''"
    "TrimSpace ''BRZ R0 #end'' = ''BRZ R0 #end''" "TrimSpace ''BRN #loop'' = ''BRN #loop''"
    "TrimSpace ''#end'' = ''#end''" "TrimSpace ''BRN #end'' = ''BRN #end''"
    by code_simp+
  have p: "parse ?r = Inr (?ins, ?tags)"
    by (simp add: parse_def sampleSource_def t isComment_def isTag_def HasPrefix_def Let_def
        eval_nat_numeral)
  have a: "assembleProgram sampleOps ?ins ?tags \<lparr>hadError = False, stdout = []\<rparr>
     = ([''000001000001010'', ''000010000000001'', ''000011000000100'', ''000100000000001'',
         ''000100000000100''],
        \<lparr>hadError = False,
         stdout = [Heading, Dashes,
           Assembled 0 ''LOD R0 10'' ''000001'' ''0'' ''00001010'',
           Assembled 1 ''SUB R0 1'' ''000010'' ''0'' ''00000001'',
           Assembled 2 ''BRZ R0 #end'' ''000011'' ''0'' ''00000100'',
           Assembled 3 ''BRN #loop'' ''000100'' ''0'' ''00000001'',
           Assembled 4 ''BRN #end'' ''000100'' ''0'' ''00000100'',
           Dashes]\<rparr>)"
    by code_simp
  have e: "encodes sampleOps ?tags ''LOD R0 10''" "encodes sampleOps ?tags ''SUB R0 1''"
    "encodes sampleOps ?tags ''BRZ R0 #end''" "encodes sampleOps ?tags ''BRN #loop''"
    "encodes sampleOps ?tags ''BRN #end''"
    by code_simp+
  then have all: "\<forall>instr \<in> set ?ins. encodes sampleOps ?tags instr" by simp
  have f: "filter isInstructionLine (stripped ?r) = ?ins"
    using parse_Inr(2) [OF p] by simp
  from instructions_placed_densely [OF p a all]
  have "fst (assembleInstruction sampleOps (filter isInstructionLine (stripped ?r) ! 2) ?tags 2)
      = Inr ''000011000000100''"
    by simp
  then have "fst (assembleInstruction sampleOps ''BRZ R0 #end'' ?tags 2) = Inr ''000011000000100''"
    by (simp add: f)
  with f show ?thesis using p a by simp
qed

text \<open>
  C4: whether an instruction line encodes does not depend on its address. The
  failure flag is set after the second pass exactly when it was set before or
  some instruction line fails to encode; a failing line does not stop the pass:
  the output program holds the encodings of all lines that encode, in source
  order, and every failing line is reported, in source order. When the flag is set
  at the end of a run, the run returns without a hex image.
\<close>

theorem failing_lines_are_skipped:
  assumes "assembleProgram ops instructions tags w = (program, w')"
  shows "(\<forall>instr line. fst (assembleInstruction ops instr tags line) = encode ops tags instr)
       \<and> hadError w' = (hadError w \<or> (\<exists>instr \<in> set instructions. \<not> encodes ops tags instr))
       \<and> program = successes ops tags instructions
       \<and> filter isFailed (stdout w') = filter isFailed (stdout w) @ reports ops tags instructions
       \<and> (\<forall>r. parse r = Inr (instructions, tags) \<and> w = \<lparr>hadError = False, stdout = []\<rparr>
              \<and> hadError w'
            \<longrightarrow> mainRun ops r = Inr (None, w'))"
  using assembleProgram_result(1-3) [OF assms] assms
  by (auto simp: mainRun_def encode_any_line)

theorem failing_lines_are_skipped_witness:
  "parse \<lparr>scanned = failingSource, scanErr = False\<rparr> = Inr (failingSource, Map.empty)
   \<and> assembleProgram sampleOps failingSource Map.empty \<lparr>hadError = False, stdout = []\<rparr>
     = ([''000001000001010'', ''000010100000001''],
        \<lparr>hadError = True,
         stdout = [Heading, Dashes,
           Assembled 0 ''LOD R0 10'' ''000001'' ''0'' ''00001010'',
           Failed (UnknownOpcode ''FOO'') ''FOO'',
           Failed (UnknownTag ''x'') ''BRN #x'',
           Assembled 3 ''SUB R1 1'' ''000010'' ''1'' ''00000001'',
           Dashes]\<rparr>)
   \<and> successes sampleOps Map.empty failingSource = [''000001000001010'', ''000010100000001'']
   \<and> reports sampleOps Map.empty failingSource
     = [Failed (UnknownOpcode ''FOO'') ''FOO'', Failed (UnknownTag ''x'') ''BRN #x'']
   \<and> mainRun sampleOps \<lparr>scanned = failingSource, scanErr = False\<rparr>
     = Inr (None,
        \<lparr>hadError = True,
         stdout = [Heading, Dashes,
           Assembled 0 ''LOD R0 10'' ''000001'' ''0'' ''00001010'',
           Failed (UnknownOpcode ''FOO'') ''FOO'',
           Failed (UnknownTag ''x'') ''BRN #x'',
           Assembled 3 ''SUB R1 1'' ''000010'' ''1'' ''00000001'',
           Dashes]\<rparr>)"
proof -
  let ?r = "\<lparr>scanned = failingSource, scanErr = False\<rparr>"
  let ?w = "\<lparr>hadError = True,
         stdout = [Heading, Dashes,
           Assembled 0 ''LOD R0 10'' ''000001'' ''0'' ''00001010'',
           Failed (UnknownOpcode ''FOO'') ''FOO'',
           Failed (UnknownTag ''x'') ''BRN #x'',
           Assembled 3 ''SUB R1 1'' ''000010'' ''1'' ''00000001'',
           Dashes]\<rparr>"
  have t: "TrimSpace ''LOD R0 10'' = ''LOD R0 10''" "TrimSpace ''FOO'' = ''FOO''"
    "TrimSpace ''BRN #x'' = ''BRN #x''" "TrimSpace ''SUB R1 1'' = ''SUB R1 1''"
    by code_simp+
  have p: "parse ?r = Inr (failingSource, Map.empty)"
    by (simp add: parse_def failingSource_def t isComment_def isTag_def HasPrefix_def Let_def)
  have a: "assembleProgram sampleOps failingSource Map.empty \<lparr>hadError = False, stdout = []\<rparr>
     = ([''000001000001010'', ''000010100000001''], ?w)"
    by code_simp
  note main = failing_lines_are_skipped [OF a]
  have "mainRun sampleOps ?r = Inr (None, ?w)"
    using main [THEN conjunct2, THEN conjunct2, THEN conjunct2, THEN conjunct2, rule_format,
        of ?r] p
    by simp
  moreover have "[''000001000001010'', ''000010100000001'']
      = successes sampleOps Map.empty failingSource"
    using main by blast
  moreover have "filter isFailed (stdout ?w)
      = filter isFailed (stdout \<lparr>hadError = False, stdout = []\<rparr>)
        @ reports sampleOps Map.empty failingSource"
    using main by blast
  ultimately show ?thesis using p a by simp
qed



end
